theory Spec2Isabelle
  imports Complex_Main
begin

section \<open>Characters and text\<close>

text \<open>
  A Python \<open>str\<close> is modelled as a \<open>string\<close>: a list of characters with code points
  below 256. On that range \<open>\d\<close> is the ten ASCII digits, \<open>\s\<close> and \<open>str.strip\<close>
  use the whitespace set below, and \<open>re.IGNORECASE\<close> relates an ASCII letter of a
  pattern to its two ASCII cases only.
\<close>

definition code :: "char \<Rightarrow> nat" where
  "code c = of_char c"

definition is_digit :: "char \<Rightarrow> bool" where
  "is_digit c = (48 \<le> code c \<and> code c \<le> 57)"

definition is_space :: "char \<Rightarrow> bool" where
  "is_space c = ((9 \<le> code c \<and> code c \<le> 13) \<or> (28 \<le> code c \<and> code c \<le> 32)
                 \<or> code c = 133 \<or> code c = 160)"

definition ascii_lower :: "nat \<Rightarrow> nat" where
  "ascii_lower n = (if 65 \<le> n \<and> n \<le> 90 then n + 32 else n)"

fun lstrip :: "string \<Rightarrow> string" where
  "lstrip [] = []"
| "lstrip (c # cs) = (if is_space c then lstrip cs else c # cs)"

definition strip :: "string \<Rightarrow> string" where
  "strip s = rev (lstrip (rev (lstrip s)))"

definition replace_char :: "char \<Rightarrow> char \<Rightarrow> string \<Rightarrow> string" where
  "replace_char old new s = map (\<lambda>c. if c = old then new else c) s"

definition remove_char :: "char \<Rightarrow> string \<Rightarrow> string" where
  "remove_char old s = filter (\<lambda>c. c \<noteq> old) s"

section \<open>Regular expressions of the penalty pattern table\<close>

text \<open>
  The patterns of \<open>PENALTY_PATTERNS\<close> use literals, the classes \<open>\d\<close>, \<open>\s\<close>, \<open>.\<close>
  and bracket sets of them, the greedy quantifiers \<open>?\<close>, \<open>+\<close>, \<open>*\<close>, the lazy \<open>*?\<close>,
  non-capturing optional groups of single characters, and one capturing group.
  \<open>atom\<close> is one alternative of a character class, a \<open>cls\<close> (a list of atoms) is a
  class, and a pattern is a list of \<open>item\<close>s.
\<close>

datatype atom = Lit char | Digit | Space | AnyChar

type_synonym cls = "atom list"

datatype item = One cls | Opt "cls list" | Plus cls | Star cls | LazyStar cls
  | GOpen | GClose

type_synonym pattern = "item list"

text \<open>Matching under \<open>re.IGNORECASE\<close>, without \<open>re.DOTALL\<close>.\<close>

fun atom_ok :: "atom \<Rightarrow> char \<Rightarrow> bool" where
  "atom_ok (Lit l) c = (ascii_lower (code c) = ascii_lower (code l))"
| "atom_ok Digit c = is_digit c"
| "atom_ok Space c = is_space c"
| "atom_ok AnyChar c = (code c \<noteq> 10)"

definition in_cls :: "cls \<Rightarrow> char \<Rightarrow> bool" where
  "in_cls k c = list_ex (\<lambda>a. atom_ok a c) k"

fun weight :: "item \<Rightarrow> nat" where
  "weight (One k) = 1"
| "weight (Opt ks) = Suc (length ks)"
| "weight (Plus k) = 3"
| "weight (Star k) = 1"
| "weight (LazyStar k) = 1"
| "weight GOpen = 1"
| "weight GClose = 1"

text \<open>
  \<open>match_here p s (g, acc)\<close> is the backtracking matcher of \<open>re\<close> anchored at the head
  of \<open>s\<close>: alternatives are tried in priority order (a greedy quantifier takes a
  character first, a lazy one tries the rest of the pattern first) and the first
  success wins. \<open>g\<close> tells whether the capturing group is open and \<open>acc\<close> holds the
  characters consumed inside it, last first. The result is \<open>group(1)\<close>.
\<close>

function match_here :: "pattern \<Rightarrow> string \<Rightarrow> bool \<times> string \<Rightarrow> string option" where
  "match_here [] s (g, acc) = Some (rev acc)"
| "match_here (One k # r) [] (g, acc) = None"
| "match_here (One k # r) (c # cs) (g, acc) =
     (if in_cls k c then match_here r cs (g, if g then c # acc else acc) else None)"
| "match_here (Opt ks # r) s (g, acc) =
     (case match_here (map One ks @ r) s (g, acc) of
        Some v \<Rightarrow> Some v
      | None \<Rightarrow> match_here r s (g, acc))"
| "match_here (Plus k # r) s (g, acc) = match_here (One k # Star k # r) s (g, acc)"
| "match_here (Star k # r) [] (g, acc) = match_here r [] (g, acc)"
| "match_here (Star k # r) (c # cs) (g, acc) =
     (if in_cls k c then
        (case match_here (Star k # r) cs (g, if g then c # acc else acc) of
           Some v \<Rightarrow> Some v
         | None \<Rightarrow> match_here r (c # cs) (g, acc))
      else match_here r (c # cs) (g, acc))"
| "match_here (LazyStar k # r) [] (g, acc) = match_here r [] (g, acc)"
| "match_here (LazyStar k # r) (c # cs) (g, acc) =
     (case match_here r (c # cs) (g, acc) of
        Some v \<Rightarrow> Some v
      | None \<Rightarrow>
          (if in_cls k c then match_here (LazyStar k # r) cs (g, if g then c # acc else acc)
           else None))"
| "match_here (GOpen # r) s (g, acc) = match_here r s (True, [])"
| "match_here (GClose # r) s (g, acc) = match_here r s (False, acc)"
  by pat_completeness auto
termination
  by (relation "measures [\<lambda>(p, s, st). length s, \<lambda>(p, s, st). sum_list (map weight p)]")
     (auto simp: comp_def sum_list_triv)

text \<open>\<open>re.search\<close>: the leftmost start position at which the pattern matches.\<close>

fun re_search :: "pattern \<Rightarrow> string \<Rightarrow> string option" where
  "re_search p [] = match_here p [] (False, [])"
| "re_search p (c # cs) =
     (case match_here p (c # cs) (False, []) of
        Some v \<Rightarrow> Some v
      | None \<Rightarrow> re_search p cs)"

section \<open>The penalty pattern table\<close>

text \<open>Building blocks shared by the entries of \<open>PENALTY_PATTERNS\<close> (config.py).\<close>

definition lit :: "string \<Rightarrow> pattern" where
  "lit s = map (\<lambda>c. One [Lit c]) s"

text \<open>\<open>\$?\<close>\<close>

definition dollar_opt :: item where
  "dollar_opt = Opt [[Lit (CHR ''$'')]]"

text \<open>\<open>(?:\.\d{2})?\<close>\<close>

definition cents_opt :: item where
  "cents_opt = Opt [[Lit (CHR ''.'')], [Digit], [Digit]]"

text \<open>\<open>\$?([\d,]+(?:\.\d{2})?)\<close>\<close>

definition amount :: pattern where
  "amount = [dollar_opt, GOpen, Plus [Digit, Lit (CHR '','')], cents_opt, GClose]"

text \<open>\<open>\$?([S5\d,]+(?:\.\d{2})?)\<close>\<close>

definition amount_s :: pattern where
  "amount_s = [dollar_opt, GOpen,
     Plus [Lit (CHR ''S''), Lit (CHR ''5''), Digit, Lit (CHR '','')], cents_opt, GClose]"

text \<open>\<open>[\s\n]+\<close>\<close>

definition gap :: item where
  "gap = Plus [Space, Lit (CHR 0x0A)]"

definition PENALTY_PATTERNS :: "pattern list" where
  "PENALTY_PATTERNS =
    [lit ''administrative penalty of '' @ amount,
     lit ''pay an administrative penalty of '' @ amount,
     lit ''pay a penalty of '' @ amount,
     lit ''penalty of '' @ amount,
     lit ''pay '' @ amount,
     lit ''shall pay '' @ amount,
     lit ''in the amount of '' @ amount,
     lit ''assessed a penalty of '' @ amount,
     lit ''civil penalty of '' @ amount,
     lit ''total penalty of '' @ amount,
     lit ''monetary penalty of '' @ amount,
     lit ''penalties totaling '' @ amount,
     lit ''stipulated penalty of '' @ amount,
     lit ''agrees to pay '' @ amount,
     lit ''shall be assessed '' @ amount,
     lit ''penalty in the amount of '' @ amount,
     lit ''pay a '' @ amount,
     lit ''administrative penalty in the amount of '' @ amount,
     lit ''administrative'' @ [gap] @ lit ''penalty'' @ [gap] @ lit ''of'' @ [gap] @ amount,
     lit ''pay'' @ [gap] @ lit ''an'' @ [gap] @ lit ''administrative'' @ [gap]
       @ lit ''penalty'' @ [gap] @ lit ''of'' @ [gap] @ amount,
     lit ''shall pay a '' @ amount_s,
     lit ''pay a '' @ amount_s,
     lit ''pay a '' @ amount_s
       @ [Star [Space], Opt (map (\<lambda>c. [Lit c]) ''civil''), Star [Space]] @ lit ''penalty'',
     lit ''shall pay'' @ [LazyStar [AnyChar]] @ amount_s]"

section \<open>The amount recoverer\<close>

datatype error = ValueError | KeyError | RequestError | PdfError | TempFileError
  | WriteError | FileNotFoundError | RasterError | ImageError | UnlinkError

text \<open>
  \<open>float(s)\<close> on the strings that reach it, which hold digits and periods only:
  the value is read when \<open>s\<close> is \<open>digits\<close>, \<open>digits.\<close>, \<open>digits.digits\<close> or
  \<open>.digits\<close> with at least one digit, and \<open>ValueError\<close> is raised otherwise.
  The result is the decimal the string denotes, kept as a rational: Python's value is
  the double nearest to it, so the comparison of a result with a decimal literal is
  the comparison of the two rationals whenever the string has the literal's digits.
\<close>

definition digit_val :: "char \<Rightarrow> nat" where
  "digit_val c = code c - 48"

definition nat_of_digits :: "string \<Rightarrow> nat" where
  "nat_of_digits ds = foldl (\<lambda>n c. 10 * n + digit_val c) 0 ds"

definition float :: "string \<Rightarrow> error + rat" where
  "float s =
    (let t = strip s; ip = takeWhile is_digit t; rest = dropWhile is_digit t in
     case rest of
       [] \<Rightarrow> if ip = [] then Inl ValueError else Inr (of_nat (nat_of_digits ip))
     | d # fp \<Rightarrow>
         if d = CHR ''.'' \<and> list_all is_digit fp \<and> (ip \<noteq> [] \<or> fp \<noteq> [])
         then Inr (of_nat (nat_of_digits (ip @ fp)) / 10 ^ length fp)
         else Inl ValueError)"

text \<open>The body of the \<open>try\<close> block of \<open>extract_settlement\<close>, from \<open>group(1)\<close> on.\<close>

definition parse_amount :: "string \<Rightarrow> error + rat" where
  "parse_amount g =
    (let amount_str = strip g;
         amount_str = replace_char (CHR ''S'') (CHR ''5'') amount_str;
         amount_str = replace_char (CHR ''s'') (CHR ''5'') amount_str;
         amount_str = filter (\<lambda>c. is_digit c \<or> c = CHR ''.'' \<or> c = CHR '','') amount_str
     in float (remove_char (CHR '','') amount_str))"

text \<open>
  The \<open>for pattern in PENALTY_PATTERNS\<close> loop: a pattern that does not match, or whose
  numeral raises \<open>ValueError\<close>, passes control to the next one.
\<close>

fun settlement_loop :: "pattern list \<Rightarrow> string \<Rightarrow> error + rat option" where
  "settlement_loop [] text = Inr None"
| "settlement_loop (p # ps) text =
     (case re_search p text of
        None \<Rightarrow> settlement_loop ps text
      | Some g \<Rightarrow>
          (case parse_amount g of
             Inr a \<Rightarrow> Inr (Some a)
           | Inl ValueError \<Rightarrow> settlement_loop ps text
           | Inl e \<Rightarrow> Inl e))"

text \<open>
  \<open>text_data\<close> is \<open>None\<close> or a dictionary, written as an association list; an empty
  dictionary is falsy, and a dictionary without the key \<open>text\<close> raises \<open>KeyError\<close>.
\<close>

type_synonym text_data = "(string \<times> string) list"

definition extract_settlement :: "text_data option \<Rightarrow> error + rat option" where
  "extract_settlement text_data =
    (case text_data of
       None \<Rightarrow> Inr None
     | Some d \<Rightarrow>
         if d = [] then Inr None
         else (case map_of d ''text'' of
                 None \<Rightarrow> Inl KeyError
               | Some text \<Rightarrow> settlement_loop PENALTY_PATTERNS text))"

text \<open>What one pass of the loop body does with one pattern.\<close>

datatype outcome = NoMatch | Unparsable | Amount rat

definition try_pattern :: "pattern \<Rightarrow> string \<Rightarrow> outcome" where
  "try_pattern p text =
    (case re_search p text of
       None \<Rightarrow> NoMatch
     | Some g \<Rightarrow> (case parse_amount g of Inl e \<Rightarrow> Unparsable | Inr a \<Rightarrow> Amount a))"

section \<open>Cleanup of recognised text\<close>

text \<open>
  Each entry of \<open>fixes\<close> in \<open>_clean_ocr_text\<close> is a pattern \<open>(?<!B)c(?!A)\<close>, one
  character \<open>c\<close> with a negative lookbehind class \<open>B\<close> and a negative lookahead class
  \<open>A\<close>, and a replacement character. An entry is written \<open>(B, c, A, new)\<close>.
\<close>

type_synonym ocr_fix = "(char \<Rightarrow> bool) \<times> char \<times> (char \<Rightarrow> bool) \<times> char"

definition ocr_fixes :: "ocr_fix list" where
  "ocr_fixes =
    [(is_digit, CHR ''0'', is_digit, CHR ''O''),
     (is_digit, CHR ''1'', is_digit, CHR ''I''),
     ((\<lambda>c. c = CHR ''$''), CHR ''$'', is_digit, CHR ''S''),
     (is_digit, CHR ''8'', is_digit, CHR ''B''),
     (is_digit, CHR ''5'', is_digit, CHR ''S'')]"

text \<open>
  \<open>re.sub\<close> with such a pattern scans the text once; the lookarounds read the text
  as it was before the call, so \<open>prev\<close> is the unreplaced character on the left.
\<close>

fun re_sub :: "ocr_fix \<Rightarrow> char option \<Rightarrow> string \<Rightarrow> string" where
  "re_sub (B, c, A, new) prev [] = []"
| "re_sub (B, c, A, new) prev (x # xs) =
     (if x = c \<and> \<not> (case prev of None \<Rightarrow> False | Some p \<Rightarrow> B p)
            \<and> \<not> (case xs of [] \<Rightarrow> False | y # ys \<Rightarrow> A y)
      then new else x) # re_sub (B, c, A, new) (Some x) xs"

definition clean_ocr_text :: "string \<Rightarrow> string" where
  "clean_ocr_text text = foldl (\<lambda>t f. re_sub f None t) text ocr_fixes"

text \<open>The character before and after position \<open>i\<close> of a text, for stating properties.\<close>

definition prev_is :: "(char \<Rightarrow> bool) \<Rightarrow> string \<Rightarrow> nat \<Rightarrow> bool" where
  "prev_is P t i = (0 < i \<and> P (t ! (i - 1)))"

definition next_is :: "(char \<Rightarrow> bool) \<Rightarrow> string \<Rightarrow> nat \<Rightarrow> bool" where
  "next_is P t i = (Suc i < length t \<and> P (t ! Suc i))"

section \<open>The text extractor\<close>

text \<open>
  The extractor talks to the network, to pdfplumber, to the file system, to
  pdf2image and to tesseract. A \<open>world\<close> fixes what each of these calls answers:
  a value, or the exception it raises. \<open>pdfplumber_open\<close> gives the pages of a
  document, each with what its \<open>extract_text()\<close> does; \<open>enhance_image\<close> stands for the
  greyscale conversion and the two enhancement passes of one page.
\<close>

type_synonym bytes = "nat list"

datatype image = Image nat

record world =
  requests_get :: "string \<Rightarrow> error + bytes"
  pdfplumber_open :: "bytes \<Rightarrow> error + (error + string option) list"
  named_temporary_file :: "error + string"
  tmp_write :: "string \<Rightarrow> bytes \<Rightarrow> error + unit"
  convert_from_path :: "bytes \<Rightarrow> error + image list"
  enhance_image :: "image \<Rightarrow> error + image"
  image_to_string :: "image \<Rightarrow> error + string"
  os_unlink :: "string \<Rightarrow> error + unit"

text \<open>
  The state the extractor acts on: the files on disk by path, and the external calls
  made so far, oldest first.
\<close>

datatype call = Get string | PdfOpen | NamedTemporaryFile | Write string
  | ConvertFromPath string | ImageToString image | Unlink string

record sys =
  files :: "string \<rightharpoonup> bytes"
  calls :: "call list"

definition called :: "call \<Rightarrow> sys \<Rightarrow> sys" where
  "called c s = s\<lparr>calls := calls s @ [c]\<rparr>"

text \<open>The page loop of \<open>_extract_with_pdfplumber\<close>; an exception of a page leaves the loop.\<close>

fun plumber_pages :: "(error + string option) list \<Rightarrow> string \<Rightarrow> error + string" where
  "plumber_pages [] text = Inr text"
| "plumber_pages (page # pages) text =
     (case page of
        Inl e \<Rightarrow> Inl e
      | Inr None \<Rightarrow> plumber_pages pages text
      | Inr (Some page_text) \<Rightarrow>
          if page_text = [] then plumber_pages pages text
          else plumber_pages pages (text @ page_text @ [CHR 0x0A]))"

definition extract_with_pdfplumber ::
  "world \<Rightarrow> bytes \<Rightarrow> sys \<Rightarrow> (error + string option) \<times> sys" where
  "extract_with_pdfplumber w pdf_content s =
    (let s1 = called PdfOpen s in
     case pdfplumber_open w pdf_content of
       Inl e \<Rightarrow> (Inr None, s1)
     | Inr pages \<Rightarrow>
         (case plumber_pages pages [] of
            Inl e \<Rightarrow> (Inr None, s1)
          | Inr text \<Rightarrow> (Inr (Some (strip text)), s1)))"

text \<open>
  The page loop of \<open>_extract_with_ocr\<close>: a page whose processing raises is skipped, a
  page whose text is blank adds nothing.
\<close>

fun ocr_pages :: "world \<Rightarrow> image list \<Rightarrow> string list \<Rightarrow> sys \<Rightarrow> string list \<times> sys" where
  "ocr_pages w [] pages_text s = (pages_text, s)"
| "ocr_pages w (img # images) pages_text s =
     (case enhance_image w img of
        Inl e \<Rightarrow> ocr_pages w images pages_text s
      | Inr enhanced \<Rightarrow>
          (case image_to_string w enhanced of
             Inl e \<Rightarrow> ocr_pages w images pages_text (called (ImageToString enhanced) s)
           | Inr page_text \<Rightarrow>
               if strip page_text \<noteq> []
               then ocr_pages w images (pages_text @ [page_text])
                      (called (ImageToString enhanced) s)
               else ocr_pages w images pages_text (called (ImageToString enhanced) s)))"

fun join :: "string \<Rightarrow> string list \<Rightarrow> string" where
  "join sep [] = []"
| "join sep [x] = x"
| "join sep (x # y # ys) = x @ sep @ join sep (y # ys)"

text \<open>The inner \<open>try\<close> block of \<open>_extract_with_ocr\<close>, without its \<open>finally\<close>.\<close>

definition ocr_try :: "world \<Rightarrow> string \<Rightarrow> sys \<Rightarrow> (error + string option) \<times> sys" where
  "ocr_try w tmp_pdf_path s =
    (let s1 = called (ConvertFromPath tmp_pdf_path) s in
     case (case files s1 tmp_pdf_path of
             None \<Rightarrow> Inl FileNotFoundError
           | Some b \<Rightarrow> convert_from_path w b) of
       Inl e \<Rightarrow> (Inl e, s1)
     | Inr images \<Rightarrow>
         (case ocr_pages w images [] s1 of
            (pages_text, s2) \<Rightarrow>
              if pages_text \<noteq> [] then (Inr (Some (join [CHR 0x0A, CHR 0x0A] pages_text)), s2)
              else (Inr None, s2)))"

text \<open>The \<open>finally\<close> block: the unlink, whose own exception is caught and logged.\<close>

definition ocr_finally :: "world \<Rightarrow> string \<Rightarrow> sys \<Rightarrow> sys" where
  "ocr_finally w tmp_pdf_path s =
    (let s1 = called (Unlink tmp_pdf_path) s in
     case os_unlink w tmp_pdf_path of
       Inl e \<Rightarrow> s1
     | Inr u \<Rightarrow> s1\<lparr>files := (files s1)(tmp_pdf_path := None)\<rparr>)"

text \<open>
  \<open>_extract_with_ocr\<close>. \<open>NamedTemporaryFile(delete=False)\<close> creates the file; the
  \<open>with\<close> block writes it and closes it. The inner \<open>try\<close> with its \<open>finally\<close> starts
  after the \<open>with\<close> block; the outer \<open>except\<close> turns every exception into \<open>None\<close>.
\<close>

definition extract_with_ocr ::
  "world \<Rightarrow> bytes \<Rightarrow> sys \<Rightarrow> (error + string option) \<times> sys" where
  "extract_with_ocr w pdf_content s =
    (let s0 = called NamedTemporaryFile s in
     case named_temporary_file w of
       Inl e \<Rightarrow> (Inr None, s0)
     | Inr tmp_pdf_path \<Rightarrow>
         (let s1 = called (Write tmp_pdf_path) (s0\<lparr>files := (files s0)(tmp_pdf_path \<mapsto> [])\<rparr>) in
          case tmp_write w tmp_pdf_path pdf_content of
            Inl e \<Rightarrow> (Inr None, s1)
          | Inr u \<Rightarrow>
              (let s2 = s1\<lparr>files := (files s1)(tmp_pdf_path \<mapsto> pdf_content)\<rparr> in
               case ocr_try w tmp_pdf_path s2 of
                 (r, s3) \<Rightarrow>
                   (let s4 = ocr_finally w tmp_pdf_path s3 in
                    case r of
                      Inl e \<Rightarrow> (Inr None, s4)
                    | Inr full_text \<Rightarrow> (Inr full_text, s4)))))"

text \<open>\<open>x and len(x.strip()) > 200\<close>, and the length the log message reports.\<close>

definition meaningful :: "string option \<Rightarrow> bool" where
  "meaningful x = (case x of None \<Rightarrow> False | Some t \<Rightarrow> t \<noteq> [] \<and> 200 < length (strip t))"

definition trimmed_length :: "string option \<Rightarrow> nat" where
  "trimmed_length x = (case x of None \<Rightarrow> 0 | Some t \<Rightarrow> if t = [] then 0 else length (strip t))"

text \<open>The body of the \<open>try\<close> block of \<open>extract_from_pdf\<close>.\<close>

definition extract_from_pdf_try ::
  "world \<Rightarrow> string \<Rightarrow> sys \<Rightarrow> (error + text_data option) \<times> sys" where
  "extract_from_pdf_try w url s =
    (let s0 = called (Get url) s in
     case requests_get w url of
       Inl e \<Rightarrow> (Inl e, s0)
     | Inr pdf_content \<Rightarrow>
         (case extract_with_pdfplumber w pdf_content s0 of
            (Inl e, s1) \<Rightarrow> (Inl e, s1)
          | (Inr pdfplumber_text, s1) \<Rightarrow>
              if meaningful pdfplumber_text
              then (Inr (Some [(''text'', the pdfplumber_text)]), s1)
              else
                (case extract_with_ocr w pdf_content s1 of
                   (Inl e, s2) \<Rightarrow> (Inl e, s2)
                 | (Inr ocr_text, s2) \<Rightarrow>
                     if meaningful ocr_text
                     then (Inr (Some [(''text'', clean_ocr_text (the ocr_text))]), s2)
                     else (Inr None, s2))))"

text \<open>\<open>extract_from_pdf\<close>: the \<open>try\<close> block under \<open>except Exception: return None\<close>.\<close>

definition extract_from_pdf ::
  "world \<Rightarrow> string \<Rightarrow> sys \<Rightarrow> (error + text_data option) \<times> sys" where
  "extract_from_pdf w url s =
    (case extract_from_pdf_try w url s of
       (Inl e, s') \<Rightarrow> (Inr None, s')
     | (Inr r, s') \<Rightarrow> (Inr r, s'))"

subsection \<open>Sample worlds\<close>

text \<open>
  A scanned document: no usable embedded text, two page images of which the first
  cannot be enhanced, and a working file system.
\<close>

definition no_files :: sys where
  "no_files = \<lparr>files = Map.empty, calls = []\<rparr>"

definition scanned_world :: world where
  "scanned_world =
    \<lparr>requests_get = (\<lambda>url. Inr [37, 80, 68, 70]),
     pdfplumber_open = (\<lambda>b. Inr [Inr None, Inr (Some ''7'')]),
     named_temporary_file = Inr ''/tmp/tmp1.pdf'',
     tmp_write = (\<lambda>p b. Inr ()),
     convert_from_path = (\<lambda>b. Inr [Image 0, Image 1]),
     enhance_image = (\<lambda>i. if i = Image 0 then Inl ImageError else Inr i),
     image_to_string = (\<lambda>i. Inr ''scan''),
     os_unlink = (\<lambda>p. Inr ())\<rparr>"

text \<open>The same document with 250 characters of embedded text on its page.\<close>

definition digital_world :: world where
  "digital_world =
    scanned_world\<lparr>pdfplumber_open := (\<lambda>b. Inr [Inr (Some (replicate 250 (CHR ''a'')))])\<rparr>"

text \<open>The scanned document on a system whose \<open>os.unlink\<close> raises.\<close>

definition unlink_fails_world :: world where
  "unlink_fails_world = scanned_world\<lparr>os_unlink := (\<lambda>p. Inl UnlinkError)\<rparr>"

text \<open>Bytes that neither pdfplumber nor pdf2image can read, and a failing download.\<close>

definition garbage_world :: world where
  "garbage_world =
    scanned_world\<lparr>pdfplumber_open := (\<lambda>b. Inl PdfError),
                  convert_from_path := (\<lambda>b. Inl RasterError)\<rparr>"

text \<open>The scanned document on a full disk: writing the temporary file raises.\<close>

definition disk_full_world :: world where
  "disk_full_world = scanned_world\<lparr>tmp_write := (\<lambda>p b. Inl WriteError)\<rparr>"

text \<open>
  A document that pdfplumber cannot open while the rasterizer can: the second page
  image is recognised as 300 letters.
\<close>

definition image_only_world :: world where
  "image_only_world =
    scanned_world\<lparr>pdfplumber_open := (\<lambda>b. Inl PdfError),
                  image_to_string := (\<lambda>i. Inr (replicate 300 (CHR ''a'')))\<rparr>"

definition offline_world :: world where
  "offline_world = scanned_world\<lparr>requests_get := (\<lambda>url. Inl RequestError)\<rparr>"

section \<open>Properties of the amount recoverer\<close>

text \<open>Unfolding sets for evaluating the matcher and the numeral parser.\<close>

lemmas ev = lit_def amount_def amount_s_def dollar_opt_def cents_opt_def gap_def in_cls_def
  ascii_lower_def is_digit_def is_space_def code_def

lemmas pv = parse_amount_def float_def strip_def replace_char_def remove_char_def
  nat_of_digits_def digit_val_def

lemma float_error: "float s = Inl e \<Longrightarrow> e = ValueError"
  unfolding float_def Let_def
  by (cases "dropWhile is_digit (strip s)") (simp_all split: if_splits)

lemma parse_amount_error: "parse_amount g = Inl e \<Longrightarrow> e = ValueError"
  unfolding parse_amount_def Let_def by (rule float_error)

lemma settlement_loop_Cons:
  "settlement_loop (p # ps) t =
     (case try_pattern p t of Amount a \<Rightarrow> Inr (Some a) | _ \<Rightarrow> settlement_loop ps t)"
proof (cases "re_search p t")
  case None
  then show ?thesis by (simp add: try_pattern_def)
next
  case (Some g)
  show ?thesis
  proof (cases "parse_amount g")
    case (Inl e)
    with parse_amount_error have "e = ValueError" by blast
    with Some Inl show ?thesis by (simp add: try_pattern_def)
  next
    case (Inr a)
    with Some show ?thesis by (simp add: try_pattern_def)
  qed
qed

lemma settlement_loop_total: "\<exists>r. settlement_loop ps t = Inr r"
  by (induction ps) (auto simp: settlement_loop_Cons simp del: settlement_loop.simps(2) split: outcome.splits)

lemma settlement_loop_None:
  "settlement_loop ps t = Inr None \<longleftrightarrow>
     (\<forall>p\<in>set ps. try_pattern p t \<in> {NoMatch, Unparsable})"
  by (induction ps) (auto simp: settlement_loop_Cons simp del: settlement_loop.simps(2) split: outcome.splits)

lemma settlement_loop_Some:
  "settlement_loop ps t = Inr (Some a) \<longleftrightarrow>
     (\<exists>i<length ps. try_pattern (ps ! i) t = Amount a \<and>
        (\<forall>p\<in>set (take i ps). try_pattern p t \<in> {NoMatch, Unparsable}))"
proof (induction ps)
  case Nil
  then show ?case by simp
next
  case (Cons p ps)
  show ?case
  proof (cases "\<exists>b. try_pattern p t = Amount b")
    case True
    then obtain b where b: "try_pattern p t = Amount b" by blast
    have "(\<exists>i<length (p # ps). try_pattern ((p # ps) ! i) t = Amount a \<and>
        (\<forall>q\<in>set (take i (p # ps)). try_pattern q t \<in> {NoMatch, Unparsable})) \<longleftrightarrow> b = a"
    proof
      assume "\<exists>i<length (p # ps). try_pattern ((p # ps) ! i) t = Amount a \<and>
        (\<forall>q\<in>set (take i (p # ps)). try_pattern q t \<in> {NoMatch, Unparsable})"
      then obtain i where i: "try_pattern ((p # ps) ! i) t = Amount a"
        "\<forall>q\<in>set (take i (p # ps)). try_pattern q t \<in> {NoMatch, Unparsable}" by blast
      show "b = a"
      proof (cases i)
        case 0
        with i b show ?thesis by simp
      next
        case (Suc k)
        with i(2) b show ?thesis by simp
      qed
    next
      assume "b = a"
      with b have "try_pattern ((p # ps) ! 0) t = Amount a \<and>
        (\<forall>q\<in>set (take 0 (p # ps)). try_pattern q t \<in> {NoMatch, Unparsable})" by simp
      then show "\<exists>i<length (p # ps). try_pattern ((p # ps) ! i) t = Amount a \<and>
        (\<forall>q\<in>set (take i (p # ps)). try_pattern q t \<in> {NoMatch, Unparsable})"
        by (metis length_greater_0_conv list.discI)
    qed
    with b show ?thesis by (simp add: settlement_loop_Cons del: settlement_loop.simps(2))
  next
    case False
    then have f: "try_pattern p t \<in> {NoMatch, Unparsable}"
      by (cases "try_pattern p t") auto
    then have step: "settlement_loop (p # ps) t = settlement_loop ps t"
      by (auto simp: settlement_loop_Cons simp del: settlement_loop.simps(2))
    have "(\<exists>i<length (p # ps). try_pattern ((p # ps) ! i) t = Amount a \<and>
        (\<forall>q\<in>set (take i (p # ps)). try_pattern q t \<in> {NoMatch, Unparsable})) \<longleftrightarrow>
      (\<exists>i<length ps. try_pattern (ps ! i) t = Amount a \<and>
        (\<forall>q\<in>set (take i ps). try_pattern q t \<in> {NoMatch, Unparsable}))"
      using f by (simp add: Ex_less_Suc2) auto
    with step Cons.IH show ?thesis by simp
  qed
qed

lemma re_search_here: "match_here p s (False, []) = Some g \<Longrightarrow> re_search p s = Some g"
  by (cases s) simp_all

lemma re_search_prefix:
  "\<forall>i<length pre. match_here p (drop i (pre @ s)) (False, []) = None \<Longrightarrow>
   re_search p (pre @ s) = re_search p s"
proof (induction pre)
  case Nil
  then show ?case by simp
next
  case (Cons x xs)
  from Cons.prems have h0: "match_here p ((x # xs) @ s) (False, []) = None"
    by (metis drop0 length_greater_0_conv list.discI)
  have "\<forall>i<length xs. match_here p (drop i (xs @ s)) (False, []) = None"
  proof (intro allI impI)
    fix i assume "i < length xs"
    then have "Suc i < length (x # xs)" by simp
    with Cons.prems have "match_here p (drop (Suc i) ((x # xs) @ s)) (False, []) = None"
      by blast
    then show "match_here p (drop i (xs @ s)) (False, []) = None" by simp
  qed
  with Cons.IH have "re_search p (xs @ s) = re_search p s" .
  with h0 show ?case by simp
qed

lemma length_PENALTY_PATTERNS: "length PENALTY_PATTERNS = 24"
  by (simp add: PENALTY_PATTERNS_def)

lemma first_amount_wins:
  assumes "i < length PENALTY_PATTERNS"
    and "try_pattern (PENALTY_PATTERNS ! i) t = Amount a"
    and "\<forall>p\<in>set (take i PENALTY_PATTERNS). try_pattern p t \<in> {NoMatch, Unparsable}"
  shows "extract_settlement (Some [(''text'', t)]) = Inr (Some a)"
proof -
  from assms have "settlement_loop PENALTY_PATTERNS t = Inr (Some a)"
    unfolding settlement_loop_Some by blast
  then show ?thesis by (simp add: extract_settlement_def)
qed

text \<open>
  C3. Whenever the leftmost match of the first pattern of the table starts at an
  occurrence of \<open>administrative penalty of $1,234.56\<close>, \<open>extract_settlement\<close> returns
  1234.56, whatever stands before and after the phrase.
\<close>

theorem administrative_penalty_amount:
  assumes "\<forall>i<length pre. match_here (PENALTY_PATTERNS ! 0)
             (drop i (pre @ ''administrative penalty of $1,234.56'' @ post)) (False, []) = None"
  shows "extract_settlement
           (Some [(''text'', pre @ ''administrative penalty of $1,234.56'' @ post)])
         = Inr (Some 1234.56)"
proof -
  let ?t = "pre @ ''administrative penalty of $1,234.56'' @ post"
  have p0: "PENALTY_PATTERNS ! 0 = lit ''administrative penalty of '' @ amount"
    by (simp add: PENALTY_PATTERNS_def)
  have "match_here (PENALTY_PATTERNS ! 0) (''administrative penalty of $1,234.56'' @ post)
          (False, []) = Some ''1,234.56''"
    unfolding p0 by (simp add: ev)
  then have "re_search (PENALTY_PATTERNS ! 0) (''administrative penalty of $1,234.56'' @ post)
          = Some ''1,234.56''"
    by (rule re_search_here)
  with re_search_prefix [OF assms]
  have "re_search (PENALTY_PATTERNS ! 0) ?t = Some ''1,234.56''" by simp
  moreover have "parse_amount ''1,234.56'' = Inr 1234.56" by (simp add: ev pv)
  ultimately have "try_pattern (PENALTY_PATTERNS ! 0) ?t = Amount 1234.56"
    by (simp add: try_pattern_def)
  then show ?thesis
    by (intro first_amount_wins [where i = 0]) (simp_all add: length_PENALTY_PATTERNS)
qed

theorem administrative_penalty_amount_witness:
  "extract_settlement
     (Some [(''text'', ''An administrative penalty of $1,234.567 is due'')])
   = Inr (Some 1234.56)"
proof -
  have p0: "PENALTY_PATTERNS ! 0 = lit ''administrative penalty of '' @ amount"
    by (simp add: PENALTY_PATTERNS_def)
  have "\<forall>i<length ''An ''. match_here (PENALTY_PATTERNS ! 0)
          (drop i (''An '' @ ''administrative penalty of $1,234.56'' @ ''7 is due''))
          (False, []) = None"
    unfolding p0 by (simp add: All_less_Suc2 ev)
  from administrative_penalty_amount [OF this] show ?thesis by simp
qed

text \<open>
  C2. The text \<open>shall pay a S5,000 civil penalty\<close> is first matched by the entry
  \<open>shall pay a \$?([S5\d,]+(?:\.\d{2})?)\<close>, whose group captures \<open>S5,000\<close>; the repair
  turns the \<open>S\<close> into a further digit 5, so the result is 55000 and not 5000.
\<close>

theorem shall_pay_S5000_counterexample:
  "extract_settlement (Some [(''text'', ''shall pay a S5,000 civil penalty'')])
     = Inr (Some 55000)
   \<and> extract_settlement (Some [(''text'', ''shall pay a S5,000 civil penalty'')])
     \<noteq> Inr (Some 5000)"
proof -
  have "extract_settlement (Some [(''text'', ''shall pay a S5,000 civil penalty'')])
     = Inr (Some 55000)"
    by (simp add: extract_settlement_def PENALTY_PATTERNS_def ev pv)
  then show ?thesis by simp
qed

text \<open>
  C2, amended. Whenever no entry before \<open>shall pay a \$?([S5\d,]+(?:\.\d{2})?)\<close> yields
  an amount and the leftmost match of that entry starts at an occurrence of
  \<open>shall pay a S5,000 civil penalty\<close>, \<open>extract_settlement\<close> returns 55000: the
  captured numeral \<open>S5,000\<close> becomes \<open>55,000\<close> by the repair of \<open>S\<close> to \<open>5\<close> and
  \<open>55000\<close> by comma stripping.
\<close>

theorem shall_pay_S5000_amount:
  assumes "\<forall>p\<in>set (take 20 PENALTY_PATTERNS).
             try_pattern p (pre @ ''shall pay a S5,000 civil penalty'' @ post)
               \<in> {NoMatch, Unparsable}"
    and "\<forall>i<length pre. match_here (PENALTY_PATTERNS ! 20)
             (drop i (pre @ ''shall pay a S5,000 civil penalty'' @ post)) (False, []) = None"
  shows "extract_settlement
           (Some [(''text'', pre @ ''shall pay a S5,000 civil penalty'' @ post)])
         = Inr (Some 55000)"
proof -
  let ?t = "pre @ ''shall pay a S5,000 civil penalty'' @ post"
  have p20: "PENALTY_PATTERNS ! 20 = lit ''shall pay a '' @ amount_s"
    by (simp add: PENALTY_PATTERNS_def)
  have "match_here (PENALTY_PATTERNS ! 20) (''shall pay a S5,000 civil penalty'' @ post)
          (False, []) = Some ''S5,000''"
    unfolding p20 by (simp add: ev)
  then have "re_search (PENALTY_PATTERNS ! 20) (''shall pay a S5,000 civil penalty'' @ post)
          = Some ''S5,000''"
    by (rule re_search_here)
  with re_search_prefix [OF assms(2)]
  have "re_search (PENALTY_PATTERNS ! 20) ?t = Some ''S5,000''" by simp
  moreover have "parse_amount ''S5,000'' = Inr 55000" by (simp add: ev pv)
  ultimately have "try_pattern (PENALTY_PATTERNS ! 20) ?t = Amount 55000"
    by (simp add: try_pattern_def)
  with assms(1) show ?thesis
    by (intro first_amount_wins [where i = 20]) (simp_all add: length_PENALTY_PATTERNS)
qed

theorem shall_pay_S5000_amount_witness:
  "extract_settlement
     (Some [(''text'', ''It shall pay a S5,000 civil penalty within 30 days'')])
   = Inr (Some 55000)"
proof -
  have p20: "PENALTY_PATTERNS ! 20 = lit ''shall pay a '' @ amount_s"
    by (simp add: PENALTY_PATTERNS_def)
  have a: "\<forall>p\<in>set (take 20 PENALTY_PATTERNS).
      try_pattern p (''It '' @ ''shall pay a S5,000 civil penalty'' @ '' within 30 days'')
        \<in> {NoMatch, Unparsable}"
    by (simp add: PENALTY_PATTERNS_def try_pattern_def ev)
  have b: "\<forall>i<length ''It ''. match_here (PENALTY_PATTERNS ! 20)
      (drop i (''It '' @ ''shall pay a S5,000 civil penalty'' @ '' within 30 days''))
      (False, []) = None"
    unfolding p20 by (simp add: All_less_Suc2 ev)
  from shall_pay_S5000_amount [OF a b] show ?thesis by simp
qed

text \<open>
  C4. \<open>extract_settlement\<close> never raises on a dictionary holding a text; it returns
  an amount exactly when some pattern of the table yields it while every pattern
  before it either does not match or matches a numeral that does not parse, and it
  returns \<open>None\<close> exactly when every pattern is of one of these two kinds. A match
  with an unparsable numeral therefore hands over to the next pattern.
\<close>

theorem extract_settlement_first_parsed:
  "(\<exists>r. extract_settlement (Some [(''text'', t)]) = Inr r)
   \<and> (extract_settlement (Some [(''text'', t)]) = Inr (Some a) \<longleftrightarrow>
        (\<exists>i<length PENALTY_PATTERNS. try_pattern (PENALTY_PATTERNS ! i) t = Amount a \<and>
           (\<forall>p\<in>set (take i PENALTY_PATTERNS). try_pattern p t \<in> {NoMatch, Unparsable})))
   \<and> (extract_settlement (Some [(''text'', t)]) = Inr None \<longleftrightarrow>
        (\<forall>p\<in>set PENALTY_PATTERNS. try_pattern p t \<in> {NoMatch, Unparsable}))"
proof -
  have e: "extract_settlement (Some [(''text'', t)]) = settlement_loop PENALTY_PATTERNS t"
    by (simp add: extract_settlement_def)
  show ?thesis
    unfolding e using settlement_loop_total [of PENALTY_PATTERNS t]
    by (simp only: settlement_loop_Some settlement_loop_None simp_thms)
qed

theorem extract_settlement_first_parsed_witness:
  "try_pattern (PENALTY_PATTERNS ! 3) ''penalty of , and shall pay 300'' = Unparsable
   \<and> (\<exists>i<length PENALTY_PATTERNS.
         try_pattern (PENALTY_PATTERNS ! i) ''penalty of , and shall pay 300'' = Amount 300 \<and>
         (\<forall>p\<in>set (take i PENALTY_PATTERNS).
            try_pattern p ''penalty of , and shall pay 300'' \<in> {NoMatch, Unparsable}))"
proof -
  have u: "try_pattern (PENALTY_PATTERNS ! 3) ''penalty of , and shall pay 300'' = Unparsable"
    by (simp add: PENALTY_PATTERNS_def try_pattern_def ev pv)
  have "extract_settlement (Some [(''text'', ''penalty of , and shall pay 300'')])
     = Inr (Some 300)"
    by (simp add: extract_settlement_def PENALTY_PATTERNS_def ev pv)
  with extract_settlement_first_parsed [of "''penalty of , and shall pay 300''" 300] u
  show ?thesis by blast
qed

lemma first_yielding_entry:
  assumes "i < length ps" and "try_pattern (ps ! i) t = Amount a"
  shows "\<exists>k\<le>i. \<exists>c. try_pattern (ps ! k) t = Amount c
           \<and> (\<forall>p\<in>set (take k ps). try_pattern p t \<in> {NoMatch, Unparsable})"
  using assms
proof (induction i arbitrary: a rule: less_induct)
  case (less i)
  show ?case
  proof (cases "\<forall>p\<in>set (take i ps). try_pattern p t \<in> {NoMatch, Unparsable}")
    case True
    with less.prems(2) show ?thesis by blast
  next
    case False
    then obtain p where p: "p \<in> set (take i ps)" "try_pattern p t \<notin> {NoMatch, Unparsable}"
      by blast
    from p(1) less.prems(1) obtain j where j: "j < i" "p = ps ! j"
      by (auto simp: in_set_conv_nth)
    from p(2) j(2) obtain b where b: "try_pattern (ps ! j) t = Amount b"
      by (cases "try_pattern (ps ! j) t") auto
    from j(1) less.prems(1) have "j < length ps" by simp
    from less.IH [OF j(1) this b] obtain k c where "k \<le> j"
      "try_pattern (ps ! k) t = Amount c"
      "\<forall>p\<in>set (take k ps). try_pattern p t \<in> {NoMatch, Unparsable}"
      by blast
    with j(1) show ?thesis by (intro exI [of _ k]) auto
  qed
qed

text \<open>
  C5. Two entries of the table that both yield an amount do not fix the result: an
  entry before both may yield another amount. On the text below the entries
  \<open>civil penalty of\<close> (index 8) and \<open>shall pay.*?\<close> (index 23) yield 500 and 900, and
  \<open>extract_settlement\<close> returns 100, the amount of the entry \<open>penalty of\<close> (index 3).
\<close>

theorem pattern_priority_counterexample:
  "try_pattern (PENALTY_PATTERNS ! 8)
     ''penalty of $100; civil penalty of $500; shall pay the total of 900'' = Amount 500
   \<and> try_pattern (PENALTY_PATTERNS ! 23)
     ''penalty of $100; civil penalty of $500; shall pay the total of 900'' = Amount 900
   \<and> extract_settlement
       (Some [(''text'', ''penalty of $100; civil penalty of $500; shall pay the total of 900'')])
     = Inr (Some 100)"
proof -
  have "try_pattern (PENALTY_PATTERNS ! 8)
     ''penalty of $100; civil penalty of $500; shall pay the total of 900'' = Amount 500"
    by (simp add: PENALTY_PATTERNS_def try_pattern_def ev pv)
  moreover have "try_pattern (PENALTY_PATTERNS ! 23)
     ''penalty of $100; civil penalty of $500; shall pay the total of 900'' = Amount 900"
    by (simp add: PENALTY_PATTERNS_def try_pattern_def ev pv)
  moreover have "extract_settlement
       (Some [(''text'', ''penalty of $100; civil penalty of $500; shall pay the total of 900'')])
     = Inr (Some 100)"
    by (simp add: extract_settlement_def PENALTY_PATTERNS_def ev pv)
  ultimately show ?thesis by blast
qed

text \<open>
  C5, amended. When an entry \<open>i\<close> of the table and a later entry \<open>j\<close> both yield an
  amount on a text, \<open>extract_settlement\<close> returns the amount of the first entry in
  table order that yields one, an entry at or before \<open>i\<close> and so never the later
  entry \<open>j\<close>; it returns the amount of entry \<open>i\<close> itself whenever no entry before
  \<open>i\<close> yields an amount. This holds for every text, wherever the matches lie in it.
\<close>

theorem pattern_priority:
  assumes "i < j" and "j < length PENALTY_PATTERNS"
    and "try_pattern (PENALTY_PATTERNS ! i) t = Amount a"
    and "try_pattern (PENALTY_PATTERNS ! j) t = Amount b"
  shows "(\<exists>k\<le>i. \<exists>c. try_pattern (PENALTY_PATTERNS ! k) t = Amount c
            \<and> (\<forall>p\<in>set (take k PENALTY_PATTERNS). try_pattern p t \<in> {NoMatch, Unparsable})
            \<and> extract_settlement (Some [(''text'', t)]) = Inr (Some c))
       \<and> ((\<forall>p\<in>set (take i PENALTY_PATTERNS). try_pattern p t \<in> {NoMatch, Unparsable}) \<longrightarrow>
            extract_settlement (Some [(''text'', t)]) = Inr (Some a))"
proof (intro conjI impI)
  from assms(1,2) have i: "i < length PENALTY_PATTERNS" by simp
  from first_yielding_entry [OF i assms(3)] obtain k c where k: "k \<le> i"
    "try_pattern (PENALTY_PATTERNS ! k) t = Amount c"
    "\<forall>p\<in>set (take k PENALTY_PATTERNS). try_pattern p t \<in> {NoMatch, Unparsable}"
    by blast
  from k(1) i have "k < length PENALTY_PATTERNS" by simp
  from first_amount_wins [OF this k(2,3)] k
  show "\<exists>k\<le>i. \<exists>c. try_pattern (PENALTY_PATTERNS ! k) t = Amount c
          \<and> (\<forall>p\<in>set (take k PENALTY_PATTERNS). try_pattern p t \<in> {NoMatch, Unparsable})
          \<and> extract_settlement (Some [(''text'', t)]) = Inr (Some c)"
    by blast
  show "extract_settlement (Some [(''text'', t)]) = Inr (Some a)"
    if "\<forall>p\<in>set (take i PENALTY_PATTERNS). try_pattern p t \<in> {NoMatch, Unparsable}"
    using first_amount_wins [OF i assms(3) that] .
qed

theorem pattern_priority_witness:
  "try_pattern (PENALTY_PATTERNS ! 3) ''pay $900 by May; penalty of $500'' = Amount 500
   \<and> try_pattern (PENALTY_PATTERNS ! 4) ''pay $900 by May; penalty of $500'' = Amount 900
   \<and> extract_settlement (Some [(''text'', ''pay $900 by May; penalty of $500'')])
       = Inr (Some 500)"
proof -
  have a: "try_pattern (PENALTY_PATTERNS ! 3) ''pay $900 by May; penalty of $500'' = Amount 500"
    by (simp add: PENALTY_PATTERNS_def try_pattern_def ev pv)
  have b: "try_pattern (PENALTY_PATTERNS ! 4) ''pay $900 by May; penalty of $500'' = Amount 900"
    by (simp add: PENALTY_PATTERNS_def try_pattern_def ev pv)
  have c: "\<forall>p\<in>set (take 3 PENALTY_PATTERNS).
      try_pattern p ''pay $900 by May; penalty of $500'' \<in> {NoMatch, Unparsable}"
    by (simp add: PENALTY_PATTERNS_def try_pattern_def ev)
  have "(3::nat) < 4" and "4 < length PENALTY_PATTERNS"
    by (simp_all add: length_PENALTY_PATTERNS)
  from pattern_priority [OF this a b] c a b show ?thesis by blast
qed

section \<open>Properties of the cleanup of recognised text\<close>

lemmas cv = clean_ocr_text_def ocr_fixes_def is_digit_def code_def

lemma length_re_sub [simp]: "length (re_sub f prev t) = length t"
  by (induction f prev t rule: re_sub.induct) simp_all

lemma re_sub_nth_gen:
  "i < length t \<Longrightarrow>
   re_sub (B, c, A, new) prev t ! i =
     (if t ! i = c \<and> \<not> (if i = 0 then (case prev of None \<Rightarrow> False | Some p \<Rightarrow> B p) else B (t ! (i - 1)))
          \<and> \<not> next_is A t i
      then new else t ! i)"
proof (induction t arbitrary: prev i)
  case Nil
  then show ?case by simp
next
  case (Cons x xs)
  show ?case
  proof (cases i)
    case 0
    then show ?thesis by (cases xs) (simp_all add: next_is_def)
  next
    case (Suc k)
    with Cons.prems have k: "k < length xs" by simp
    from Cons.IH [OF k, of "Some x"] Suc k show ?thesis
      by (cases k) (auto simp: next_is_def)
  qed
qed

lemma re_sub_nth:
  "i < length t \<Longrightarrow>
   re_sub (B, c, A, new) None t ! i =
     (if t ! i = c \<and> \<not> prev_is B t i \<and> \<not> next_is A t i then new else t ! i)"
  by (simp add: re_sub_nth_gen prev_is_def)

lemma re_sub_id:
  assumes "\<forall>i<length t. t ! i = c \<longrightarrow> prev_is B t i \<or> next_is A t i"
  shows "re_sub (B, c, A, new) None t = t"
  using assms by (intro nth_equalityI) (auto simp: re_sub_nth)

lemma re_sub_other:
  "i < length u \<Longrightarrow> u ! i \<noteq> c \<Longrightarrow> re_sub (B, c, A, new) None u ! i = u ! i"
  by (simp add: re_sub_nth)

lemma re_sub_cases:
  "i < length u \<Longrightarrow>
   re_sub (B, c, A, new) None u ! i = u ! i \<or> (u ! i = c \<and> re_sub (B, c, A, new) None u ! i = new)"
  by (simp add: re_sub_nth)

lemma clean_fixpoint:
  assumes "\<forall>i<length t. t ! i \<in> {CHR ''0'', CHR ''1'', CHR ''5'', CHR ''8''} \<longrightarrow>
             prev_is is_digit t i \<or> next_is is_digit t i"
    and "\<forall>i<length t. t ! i = CHR ''$'' \<longrightarrow> next_is is_digit t i"
  shows "clean_ocr_text t = t"
proof -
  have d: "re_sub (is_digit, c, is_digit, new) None t = t"
    if "c \<in> {CHR ''0'', CHR ''1'', CHR ''5'', CHR ''8''}" for c new
    using assms(1) that by (intro re_sub_id) blast
  have s: "re_sub ((\<lambda>c. c = CHR ''$''), CHR ''$'', is_digit, CHR ''S'') None t = t"
    using assms(2) by (intro re_sub_id) blast
  show ?thesis
    by (simp add: clean_ocr_text_def ocr_fixes_def d s)
qed

lemma clean_length [simp]: "length (clean_ocr_text t) = length t"
  by (simp add: clean_ocr_text_def ocr_fixes_def)

lemma dollar_kept_by_digit_fix:
  assumes i: "i < length u" and d: "is_digit d" and n: "\<not> is_digit n" "n \<noteq> CHR ''$''"
    and u: "u ! i = CHR ''$''" "\<not> prev_is (\<lambda>c. c = CHR ''$'') u i" "\<not> next_is is_digit u i"
  shows "re_sub (is_digit, d, is_digit, n) None u ! i = CHR ''$''
       \<and> \<not> prev_is (\<lambda>c. c = CHR ''$'') (re_sub (is_digit, d, is_digit, n) None u) i
       \<and> \<not> next_is is_digit (re_sub (is_digit, d, is_digit, n) None u) i"
proof (intro conjI)
  let ?v = "re_sub (is_digit, d, is_digit, n) None u"
  have "\<not> is_digit (CHR ''$'')" by (simp add: is_digit_def code_def)
  with d have "d \<noteq> CHR ''$''" by auto
  with i u(1) show "?v ! i = CHR ''$''" by (simp add: re_sub_other)
  show "\<not> prev_is (\<lambda>c. c = CHR ''$'') ?v i"
  proof (cases "0 < i")
    case False
    then show ?thesis by (simp add: prev_is_def)
  next
    case True
    with i have k: "i - 1 < length u" by simp
    from True u(2) have "u ! (i - 1) \<noteq> CHR ''$''" by (simp add: prev_is_def)
    with re_sub_cases [OF k, of is_digit d is_digit n] n(2)
    have "?v ! (i - 1) \<noteq> CHR ''$''" by auto
    then show ?thesis by (simp add: prev_is_def)
  qed
  show "\<not> next_is is_digit ?v i"
  proof (cases "Suc i < length u")
    case False
    then show ?thesis by (simp add: next_is_def)
  next
    case True
    with u(3) have nd: "\<not> is_digit (u ! Suc i)" by (simp add: next_is_def)
    with d have "u ! Suc i \<noteq> d" by auto
    with True have "?v ! Suc i = u ! Suc i" by (simp add: re_sub_other)
    with nd show ?thesis by (simp add: next_is_def)
  qed
qed

lemma dollar_replaced:
  assumes "i < length t" and "t ! i = CHR ''$''"
    and "\<not> prev_is (\<lambda>c. c = CHR ''$'') t i" and "\<not> next_is is_digit t i"
  shows "clean_ocr_text t ! i = CHR ''S''"
proof -
  define t1 where "t1 = re_sub (is_digit, CHR ''0'', is_digit, CHR ''O'') None t"
  define t2 where "t2 = re_sub (is_digit, CHR ''1'', is_digit, CHR ''I'') None t1"
  define t3 where "t3 = re_sub ((\<lambda>c. c = CHR ''$''), CHR ''$'', is_digit, CHR ''S'') None t2"
  define t4 where "t4 = re_sub (is_digit, CHR ''8'', is_digit, CHR ''B'') None t3"
  define t5 where "t5 = re_sub (is_digit, CHR ''5'', is_digit, CHR ''S'') None t4"
  have c: "clean_ocr_text t = t5"
    by (simp add: clean_ocr_text_def ocr_fixes_def t1_def t2_def t3_def t4_def t5_def)
  have l: "i < length t1" "i < length t2" "i < length t3" "i < length t4"
    using assms(1) by (simp_all add: t1_def t2_def t3_def t4_def)
  have 1: "t1 ! i = CHR ''$'' \<and> \<not> prev_is (\<lambda>c. c = CHR ''$'') t1 i \<and> \<not> next_is is_digit t1 i"
    unfolding t1_def using assms
    by (intro dollar_kept_by_digit_fix) (simp_all add: is_digit_def code_def)
  have 2: "t2 ! i = CHR ''$'' \<and> \<not> prev_is (\<lambda>c. c = CHR ''$'') t2 i \<and> \<not> next_is is_digit t2 i"
    unfolding t2_def using 1 l(1)
    by (intro dollar_kept_by_digit_fix) (simp_all add: is_digit_def code_def)
  from 2 l(2) have "t3 ! i = CHR ''S''"
    unfolding t3_def by (simp add: re_sub_nth)
  with l(3) have "t4 ! i = CHR ''S''"
    unfolding t4_def by (simp add: re_sub_other)
  with l(4) have "t5 ! i = CHR ''S''"
    unfolding t5_def by (simp add: re_sub_other)
  with c show ?thesis by simp
qed


text \<open>
  C7. On a text in which every 0, 1, 5 and 8 has a digit next to it and every dollar
  sign is immediately followed by a digit, the cleanup changes nothing, so a second
  pass gives what the first gave.
\<close>

theorem clean_ocr_text_idempotent_on_clean:
  assumes "\<forall>i<length t. t ! i \<in> {CHR ''0'', CHR ''1'', CHR ''5'', CHR ''8''} \<longrightarrow>
             prev_is is_digit t i \<or> next_is is_digit t i"
    and "\<forall>i<length t. t ! i = CHR ''$'' \<longrightarrow> next_is is_digit t i"
  shows "clean_ocr_text (clean_ocr_text t) = clean_ocr_text t \<and> clean_ocr_text t = t"
proof -
  from assms have "clean_ocr_text t = t" by (rule clean_fixpoint)
  then show ?thesis by simp
qed

theorem clean_ocr_text_idempotent_on_clean_witness:
  "clean_ocr_text (clean_ocr_text ''$50 x 18'') = clean_ocr_text ''$50 x 18''
   \<and> clean_ocr_text ''$50 x 18'' = ''$50 x 18''"
proof -
  have a: "\<forall>i<length ''$50 x 18''.
      ''$50 x 18'' ! i \<in> {CHR ''0'', CHR ''1'', CHR ''5'', CHR ''8''} \<longrightarrow>
      prev_is is_digit ''$50 x 18'' i \<or> next_is is_digit ''$50 x 18'' i"
    by (simp add: All_less_Suc prev_is_def next_is_def is_digit_def code_def)
  have b: "\<forall>i<length ''$50 x 18''.
      ''$50 x 18'' ! i = CHR ''$'' \<longrightarrow> next_is is_digit ''$50 x 18'' i"
    by (simp add: All_less_Suc prev_is_def next_is_def is_digit_def code_def)
  from clean_ocr_text_idempotent_on_clean [OF a b] show ?thesis .
qed

text \<open>
  C8. The third rule is \<open>(?<!\$)\$(?!\d)\<close>: its lookbehind keeps a dollar sign that
  follows another dollar sign. In \<open>$$\<close> the second sign is not followed by a digit
  and stays.
\<close>

theorem dollar_after_dollar_counterexample:
  "''$$'' ! 1 = CHR ''$'' \<and> \<not> next_is is_digit ''$$'' 1 \<and> clean_ocr_text ''$$'' = ''S$''"
  by (simp add: cv next_is_def)

text \<open>
  C8, amended. The cleanup keeps the length of the text and replaces by \<open>S\<close> every
  dollar sign that is neither immediately preceded by another dollar sign nor
  immediately followed by a digit; the five rules run in the order of \<open>ocr_fixes\<close>.
\<close>

theorem lone_dollar_becomes_S:
  assumes "i < length t" and "t ! i = CHR ''$''"
    and "\<not> prev_is (\<lambda>c. c = CHR ''$'') t i" and "\<not> next_is is_digit t i"
  shows "length (clean_ocr_text t) = length t \<and> clean_ocr_text t ! i = CHR ''S''"
  using assms by (simp add: dollar_replaced)

theorem lone_dollar_becomes_S_witness:
  "length (clean_ocr_text ''a $ b'') = length ''a $ b'' \<and> clean_ocr_text ''a $ b'' ! 2 = CHR ''S''"
proof -
  have "(2::nat) < length ''a $ b''" and "''a $ b'' ! 2 = CHR ''$''"
    and "\<not> prev_is (\<lambda>c. c = CHR ''$'') ''a $ b'' 2" and "\<not> next_is is_digit ''a $ b'' 2"
    by (simp_all add: prev_is_def next_is_def is_digit_def code_def)
  from lone_dollar_becomes_S [OF this] show ?thesis .
qed

text \<open>
  C10. The cleanup is not idempotent on every text: on \<open>$5\<close> the first pass gives
  \<open>$S\<close> (the lone 5 becomes \<open>S\<close>, the dollar sign stands before a digit and stays),
  and the second pass gives \<open>SS\<close> (the dollar sign no longer stands before a digit).
\<close>

theorem clean_ocr_text_not_idempotent:
  "clean_ocr_text ''$5'' = ''$S'' \<and> clean_ocr_text (clean_ocr_text ''$5'') = ''SS''
   \<and> clean_ocr_text (clean_ocr_text ''$5'') \<noteq> clean_ocr_text ''$5''"
  by (simp add: cv)

section \<open>Properties of the text extractor\<close>

lemma calls_called [simp]: "calls (called c s) = calls s @ [c]"
  by (simp add: called_def)

lemma files_called [simp]: "files (called c s) = files s"
  by (simp add: called_def)

lemma extract_with_pdfplumber_calls:
  "calls (snd (extract_with_pdfplumber w c s)) = calls s @ [PdfOpen]"
  by (simp add: extract_with_pdfplumber_def Let_def split: sum.splits)

lemma extract_with_pdfplumber_total:
  "\<exists>r. fst (extract_with_pdfplumber w c s) = Inr r"
  by (simp add: extract_with_pdfplumber_def Let_def split: sum.splits)

lemma ocr_pages_calls:
  "\<exists>xs. calls (snd (ocr_pages w images acc s)) = calls s @ xs"
proof (induction images arbitrary: acc s)
  case Nil
  then show ?case by simp
next
  case (Cons img images)
  show ?case
  proof (cases "enhance_image w img")
    case (Inl e)
    with Cons.IH [of acc s] show ?thesis by simp
  next
    case (Inr enhanced)
    let ?s = "called (ImageToString enhanced) s"
    have "\<exists>xs. calls (snd (ocr_pages w images a ?s)) = calls s @ xs" for a
      using Cons.IH [of a ?s] by auto
    with Inr show ?thesis by (simp split: sum.splits)
  qed
qed

lemma ocr_pages_files: "files (snd (ocr_pages w images acc s)) = files s"
  by (induction images arbitrary: acc s) (simp_all split: sum.splits)

lemma snd_ocr_try:
  "snd (ocr_try w p s) =
     (case (case files s p of None \<Rightarrow> Inl FileNotFoundError | Some b \<Rightarrow> convert_from_path w b) of
        Inl e \<Rightarrow> called (ConvertFromPath p) s
      | Inr images \<Rightarrow> snd (ocr_pages w images [] (called (ConvertFromPath p) s)))"
  by (simp add: ocr_try_def Let_def split: sum.splits option.splits prod.splits)

lemma ocr_try_calls:
  "\<exists>xs. calls (snd (ocr_try w p s)) = calls s @ ConvertFromPath p # xs"
proof -
  let ?s1 = "called (ConvertFromPath p) s"
  have "\<exists>xs. calls (snd (ocr_pages w images [] ?s1)) = calls s @ ConvertFromPath p # xs" for images
    using ocr_pages_calls [of w images "[]" ?s1] by auto
  then show ?thesis
    unfolding snd_ocr_try by (simp split: sum.splits option.splits)
qed

lemma ocr_try_files: "files (snd (ocr_try w p s)) = files s"
  unfolding snd_ocr_try by (simp add: ocr_pages_files split: sum.splits option.splits)

lemma ocr_finally_calls: "calls (ocr_finally w p s) = calls s @ [Unlink p]"
  by (simp add: ocr_finally_def Let_def split: sum.splits)

lemma ocr_finally_files:
  "files (ocr_finally w p s) = (case os_unlink w p of Inl e \<Rightarrow> files s | Inr u \<Rightarrow> (files s)(p := None))"
  by (simp add: ocr_finally_def Let_def split: sum.splits)

lemma snd_extract_with_ocr:
  "snd (extract_with_ocr w c s) =
    (case named_temporary_file w of
       Inl e \<Rightarrow> called NamedTemporaryFile s
     | Inr p \<Rightarrow>
        (case tmp_write w p c of
           Inl e \<Rightarrow> called (Write p)
             ((called NamedTemporaryFile s)\<lparr>files := (files s)(p \<mapsto> [])\<rparr>)
         | Inr u \<Rightarrow> ocr_finally w p (snd (ocr_try w p
             ((called (Write p) ((called NamedTemporaryFile s)\<lparr>files := (files s)(p \<mapsto> [])\<rparr>))
                \<lparr>files := (files s)(p \<mapsto> c)\<rparr>)))))"
  by (simp add: extract_with_ocr_def Let_def split: sum.splits prod.splits)

lemma extract_with_ocr_total: "\<exists>r. fst (extract_with_ocr w c s) = Inr r"
  by (simp add: extract_with_ocr_def Let_def split: sum.splits prod.splits)

lemma extract_with_ocr_calls:
  "\<exists>xs. calls (snd (extract_with_ocr w c s)) = calls s @ NamedTemporaryFile # xs"
proof (cases "named_temporary_file w")
  case (Inl e)
  then show ?thesis by (simp add: snd_extract_with_ocr)
next
  case (Inr p)
  show ?thesis
  proof (cases "tmp_write w p c")
    case (Inl e)
    with Inr show ?thesis by (simp add: snd_extract_with_ocr)
  next
    case r: (Inr u)
    let ?s2 = "(called (Write p) ((called NamedTemporaryFile s)\<lparr>files := (files s)(p \<mapsto> [])\<rparr>))
                \<lparr>files := (files s)(p \<mapsto> c)\<rparr>"
    obtain xs where "calls (snd (ocr_try w p ?s2)) = calls ?s2 @ ConvertFromPath p # xs"
      using ocr_try_calls by blast
    with Inr r show ?thesis by (simp add: snd_extract_with_ocr ocr_finally_calls)
  qed
qed


lemma extract_with_ocr_raster_fails:
  "convert_from_path w c = Inl e \<Longrightarrow> fst (extract_with_ocr w c s) = Inr None"
  by (simp add: extract_with_ocr_def ocr_try_def Let_def split: sum.splits prod.splits)

lemma meaningful_trimmed: "meaningful x \<longleftrightarrow> 200 < trimmed_length x"
  by (simp add: meaningful_def trimmed_length_def split: option.splits)

lemma extract_from_pdf_long:
  assumes "requests_get w url = Inr content"
    and "fst (extract_with_pdfplumber w content (called (Get url) s)) = Inr structured"
    and "meaningful structured"
  shows "fst (extract_from_pdf w url s) = Inr (Some [(''text'', the structured)])"
    and "calls (snd (extract_from_pdf w url s)) = calls s @ [Get url, PdfOpen]"
proof -
  obtain s1 where p: "extract_with_pdfplumber w content (called (Get url) s) = (Inr structured, s1)"
    using assms(2) by (cases "extract_with_pdfplumber w content (called (Get url) s)") simp
  then have "calls s1 = calls s @ [Get url, PdfOpen]"
    using extract_with_pdfplumber_calls [of w content "called (Get url) s"] by simp
  with assms(1,3) p show "fst (extract_from_pdf w url s) = Inr (Some [(''text'', the structured)])"
    and "calls (snd (extract_from_pdf w url s)) = calls s @ [Get url, PdfOpen]"
    by (simp_all add: extract_from_pdf_def extract_from_pdf_try_def Let_def)
qed

lemma extract_from_pdf_short:
  assumes "requests_get w url = Inr content"
    and "extract_with_pdfplumber w content (called (Get url) s) = (Inr structured, s1)"
    and "\<not> meaningful structured"
  shows "snd (extract_from_pdf w url s) = snd (extract_with_ocr w content s1)"
    and "fst (extract_with_ocr w content s1) = Inr ocr \<Longrightarrow>
         fst (extract_from_pdf w url s) =
           Inr (if meaningful ocr then Some [(''text'', clean_ocr_text (the ocr))] else None)"
  using assms
  by (auto simp: extract_from_pdf_def extract_from_pdf_try_def Let_def
      split: prod.splits sum.splits)

lemmas wv = scanned_world_def digital_world_def unlink_fails_world_def garbage_world_def
  offline_world_def disk_full_world_def image_only_world_def no_files_def

lemma lstrip_id: "xs = [] \<or> \<not> is_space (hd xs) \<Longrightarrow> lstrip xs = xs"
  by (cases xs) auto

lemma strip_id:
  assumes "xs \<noteq> []" and "\<not> is_space (hd xs)" and "\<not> is_space (last xs)"
  shows "strip xs = xs"
proof -
  from assms have "lstrip xs = xs" by (simp add: lstrip_id)
  moreover from assms have "lstrip (rev xs) = rev xs" by (simp add: lstrip_id hd_rev)
  ultimately show ?thesis by (simp add: strip_def)
qed

lemma strip_trailing:
  assumes "xs \<noteq> []" and "\<not> is_space (hd xs)" and "\<not> is_space (last xs)" and "is_space d"
  shows "strip (xs @ [d]) = xs"
proof -
  from assms have "lstrip (xs @ [d]) = xs @ [d]" by (simp add: lstrip_id)
  moreover from assms have "lstrip (rev (xs @ [d])) = rev xs" by (simp add: lstrip_id hd_rev)
  ultimately show ?thesis by (simp add: strip_def)
qed

lemma ocr_pages_only_page_calls:
  "\<exists>xs. calls (snd (ocr_pages w images acc s)) = calls s @ xs
        \<and> (\<forall>c\<in>set xs. \<exists>i. c = ImageToString i)"
proof (induction images arbitrary: acc s)
  case Nil
  then show ?case by simp
next
  case (Cons img images)
  show ?case
  proof (cases "enhance_image w img")
    case (Inl e)
    with Cons.IH [of acc s] show ?thesis by simp
  next
    case (Inr enhanced)
    let ?s = "called (ImageToString enhanced) s"
    have "\<exists>xs. calls (snd (ocr_pages w images a ?s)) = calls s @ xs
            \<and> (\<forall>c\<in>set xs. \<exists>i. c = ImageToString i)" for a
    proof -
      obtain ys where "calls (snd (ocr_pages w images a ?s)) = calls ?s @ ys"
        and "\<forall>c\<in>set ys. \<exists>i. c = ImageToString i"
        using Cons.IH [of a ?s] by blast
      then have "calls (snd (ocr_pages w images a ?s)) = calls s @ (ImageToString enhanced # ys)
          \<and> (\<forall>c\<in>set (ImageToString enhanced # ys). \<exists>i. c = ImageToString i)"
        by simp
      then show ?thesis by blast
    qed
    with Inr show ?thesis by (simp split: sum.splits)
  qed
qed

lemma ocr_try_only_page_calls:
  "\<exists>xs. calls (snd (ocr_try w p s)) = calls s @ [ConvertFromPath p] @ xs
        \<and> (\<forall>c\<in>set xs. \<exists>i. c = ImageToString i)"
proof -
  let ?s1 = "called (ConvertFromPath p) s"
  have "\<exists>xs. calls (snd (ocr_pages w images [] ?s1)) = calls s @ [ConvertFromPath p] @ xs
          \<and> (\<forall>c\<in>set xs. \<exists>i. c = ImageToString i)" for images
    using ocr_pages_only_page_calls [of w images "[]" ?s1] by simp
  moreover have "calls ?s1 = calls s @ [ConvertFromPath p] @ []
          \<and> (\<forall>c\<in>set ([]::call list). \<exists>i. c = ImageToString i)"
    by simp
  ultimately show ?thesis
    unfolding snd_ocr_try by (simp split: sum.splits option.splits)
qed

text \<open>
  C1. After a successful download, let \<open>structured\<close> be what \<open>_extract_with_pdfplumber\<close>
  returns. If its trimmed length exceeds 200, \<open>extract_from_pdf\<close> returns it under the
  key \<open>text\<close> and makes no call after the download and the opening of the document:
  no temporary file, no rasterization, no recognition. If the trimmed length is at
  most 200 (an empty or failed structured extraction counts as 0), the next call
  after these two is the creation of the temporary file, the first step of
  \<open>_extract_with_ocr\<close>.
\<close>

theorem ocr_only_below_threshold:
  assumes "requests_get w url = Inr content"
    and "fst (extract_with_pdfplumber w content (called (Get url) s)) = Inr structured"
  shows "(200 < trimmed_length structured \<longrightarrow>
            (\<exists>t. structured = Some t
               \<and> fst (extract_from_pdf w url s) = Inr (Some [(''text'', t)]))
            \<and> calls (snd (extract_from_pdf w url s)) = calls s @ [Get url, PdfOpen])
       \<and> (trimmed_length structured \<le> 200 \<longrightarrow>
            (\<exists>xs. calls (snd (extract_from_pdf w url s))
                    = calls s @ [Get url, PdfOpen, NamedTemporaryFile] @ xs))"
proof (intro conjI impI)
  assume "200 < trimmed_length structured"
  then have m: "meaningful structured" by (simp add: meaningful_trimmed)
  then obtain t where t: "structured = Some t"
    by (cases structured) (simp_all add: meaningful_def)
  with extract_from_pdf_long(1) [OF assms m]
  show "\<exists>t. structured = Some t \<and> fst (extract_from_pdf w url s) = Inr (Some [(''text'', t)])"
    by simp
  from extract_from_pdf_long(2) [OF assms m]
  show "calls (snd (extract_from_pdf w url s)) = calls s @ [Get url, PdfOpen]" .
next
  assume "trimmed_length structured \<le> 200"
  then have m: "\<not> meaningful structured" by (simp add: meaningful_trimmed)
  obtain s1 where p: "extract_with_pdfplumber w content (called (Get url) s) = (Inr structured, s1)"
    using assms(2) by (cases "extract_with_pdfplumber w content (called (Get url) s)") simp
  then have c1: "calls s1 = calls s @ [Get url, PdfOpen]"
    using extract_with_pdfplumber_calls [of w content "called (Get url) s"] by simp
  obtain xs where "calls (snd (extract_with_ocr w content s1)) = calls s1 @ NamedTemporaryFile # xs"
    using extract_with_ocr_calls by blast
  with extract_from_pdf_short(1) [OF assms(1) p m] c1
  show "\<exists>xs. calls (snd (extract_from_pdf w url s))
              = calls s @ [Get url, PdfOpen, NamedTemporaryFile] @ xs"
    by simp
qed

lemma scanned_structured:
  "fst (extract_with_pdfplumber scanned_world [37, 80, 68, 70] (called (Get ''u'') no_files))
     = Inr (Some ''7'')"
  by (simp add: extract_with_pdfplumber_def wv strip_def is_space_def code_def)

lemma digital_structured:
  "fst (extract_with_pdfplumber digital_world [37, 80, 68, 70] (called (Get ''u'') no_files))
     = Inr (Some (replicate 250 (CHR ''a'')))"
proof -
  have "strip (replicate 250 (CHR ''a'') @ [CHR 0x0A]) = replicate 250 (CHR ''a'')"
    by (rule strip_trailing) (simp_all add: is_space_def code_def)
  moreover have "replicate 250 (CHR ''a'') \<noteq> []" by simp
  ultimately show ?thesis
    by (simp add: extract_with_pdfplumber_def wv)
qed

lemma digital_trimmed: "trimmed_length (Some (replicate 250 (CHR ''a''))) = 250"
proof -
  have "strip (replicate 250 (CHR ''a'')) = replicate 250 (CHR ''a'')"
    by (rule strip_id) (simp_all add: is_space_def code_def)
  then show ?thesis by (simp add: trimmed_length_def)
qed

theorem ocr_only_below_threshold_witness:
  "calls (snd (extract_from_pdf digital_world ''u'' no_files)) = [Get ''u'', PdfOpen]
   \<and> fst (extract_from_pdf digital_world ''u'' no_files)
       = Inr (Some [(''text'', replicate 250 (CHR ''a''))])
   \<and> (\<exists>xs. calls (snd (extract_from_pdf scanned_world ''u'' no_files))
             = [Get ''u'', PdfOpen, NamedTemporaryFile] @ xs)"
proof -
  have g1: "requests_get digital_world ''u'' = Inr [37, 80, 68, 70]"
    and g2: "requests_get scanned_world ''u'' = Inr [37, 80, 68, 70]"
    by (simp_all add: wv)
  have e: "calls no_files = []" by (simp add: no_files_def)
  have s: "trimmed_length (Some ''7'') \<le> 200"
    by (simp add: trimmed_length_def strip_def is_space_def code_def)
  from ocr_only_below_threshold [OF g1 digital_structured] digital_trimmed
    ocr_only_below_threshold [OF g2 scanned_structured] s e
  show ?thesis by simp
qed

text \<open>
  C6. A failure of the structured parsing does not make \<open>extract_from_pdf\<close> return
  \<open>None\<close>, and neither does the failure of one page of the recognition: in
  \<open>image_only_world\<close> pdfplumber raises, the first page image cannot be enhanced, and
  the text recognised on the second page is returned.
\<close>

theorem structured_failure_counterexample:
  "pdfplumber_open image_only_world [37, 80, 68, 70] = Inl PdfError
   \<and> enhance_image image_only_world (Image 0) = Inl ImageError
   \<and> fst (extract_from_pdf image_only_world ''u'' no_files)
       = Inr (Some [(''text'', replicate 300 (CHR ''a''))])"
proof -
  have st: "strip (replicate 300 (CHR ''a'')) = replicate 300 (CHR ''a'')"
    by (rule strip_id) (simp_all add: is_space_def code_def)
  have cl: "clean_ocr_text (replicate 300 (CHR ''a'')) = replicate 300 (CHR ''a'')"
    by (rule clean_fixpoint) simp_all
  have ne: "replicate 300 (CHR ''a'') \<noteq> []" by simp
  have "fst (extract_from_pdf image_only_world ''u'' no_files)
       = Inr (Some [(''text'', replicate 300 (CHR ''a''))])"
    by (simp add: extract_from_pdf_def extract_from_pdf_try_def extract_with_pdfplumber_def
        extract_with_ocr_def ocr_try_def ocr_finally_def meaningful_def called_def wv st cl ne)
  then show ?thesis by (simp add: wv)
qed

text \<open>
  C6, amended. \<open>extract_from_pdf\<close> never raises: its result is always a returned
  value. It is \<open>None\<close> when the download fails, when the bytes can be read neither by
  pdfplumber nor by the rasterizer, and whenever neither the structured extraction
  (failed, empty or short) nor the recognition gives a text above the threshold. A
  failure of the structured parsing alone hands over to the recognition, and the
  result is then the cleaned recognised text if that is above the threshold and
  \<open>None\<close> otherwise.
\<close>

theorem extract_from_pdf_never_raises:
  "(\<exists>r. fst (extract_from_pdf w url s) = Inr r)
   \<and> (requests_get w url = Inl e \<longrightarrow> fst (extract_from_pdf w url s) = Inr None)
   \<and> (requests_get w url = Inr content \<and> pdfplumber_open w content = Inl e1
        \<and> convert_from_path w content = Inl e2 \<longrightarrow>
      fst (extract_from_pdf w url s) = Inr None)
   \<and> (requests_get w url = Inr content
        \<and> extract_with_pdfplumber w content (called (Get url) s) = (Inr structured, s1)
        \<and> \<not> meaningful structured
        \<and> fst (extract_with_ocr w content s1) = Inr recognised
        \<and> \<not> meaningful recognised \<longrightarrow>
      fst (extract_from_pdf w url s) = Inr None)
   \<and> (requests_get w url = Inr content \<and> pdfplumber_open w content = Inl e1
        \<and> fst (extract_with_ocr w content (called PdfOpen (called (Get url) s)))
            = Inr recognised \<longrightarrow>
      fst (extract_from_pdf w url s) =
        Inr (if meaningful recognised
             then Some [(''text'', clean_ocr_text (the recognised))] else None))"
proof (intro conjI impI)
  show "\<exists>r. fst (extract_from_pdf w url s) = Inr r"
    by (simp add: extract_from_pdf_def split: prod.splits sum.splits)
  show "fst (extract_from_pdf w url s) = Inr None" if "requests_get w url = Inl e"
    using that by (simp add: extract_from_pdf_def extract_from_pdf_try_def Let_def)
  show "fst (extract_from_pdf w url s) = Inr None"
    if h: "requests_get w url = Inr content \<and> pdfplumber_open w content = Inl e1
        \<and> convert_from_path w content = Inl e2"
  proof -
    from h have "fst (extract_with_pdfplumber w content (called (Get url) s)) = Inr None"
      by (simp add: extract_with_pdfplumber_def Let_def)
    then obtain t where t: "extract_with_pdfplumber w content (called (Get url) s) = (Inr None, t)"
      by (cases "extract_with_pdfplumber w content (called (Get url) s)") simp
    from h have "fst (extract_with_ocr w content t) = Inr None"
      by (simp add: extract_with_ocr_raster_fails)
    from extract_from_pdf_short(2) [OF _ t _ this] h show ?thesis
      by (simp add: meaningful_def)
  qed
  show "fst (extract_from_pdf w url s) = Inr None"
    if h: "requests_get w url = Inr content
        \<and> extract_with_pdfplumber w content (called (Get url) s) = (Inr structured, s1)
        \<and> \<not> meaningful structured
        \<and> fst (extract_with_ocr w content s1) = Inr recognised
        \<and> \<not> meaningful recognised"
  proof -
    from h have g: "requests_get w url = Inr content"
      and p: "extract_with_pdfplumber w content (called (Get url) s) = (Inr structured, s1)"
      and m: "\<not> meaningful structured"
      and r: "fst (extract_with_ocr w content s1) = Inr recognised"
      by simp_all
    from extract_from_pdf_short(2) [OF g p m r] h show ?thesis by simp
  qed
  show "fst (extract_from_pdf w url s) =
        Inr (if meaningful recognised
             then Some [(''text'', clean_ocr_text (the recognised))] else None)"
    if h: "requests_get w url = Inr content \<and> pdfplumber_open w content = Inl e1
        \<and> fst (extract_with_ocr w content (called PdfOpen (called (Get url) s)))
            = Inr recognised"
  proof -
    from h have p: "extract_with_pdfplumber w content (called (Get url) s)
        = (Inr None, called PdfOpen (called (Get url) s))"
      by (simp add: extract_with_pdfplumber_def Let_def)
    from h have g: "requests_get w url = Inr content"
      and r: "fst (extract_with_ocr w content (called PdfOpen (called (Get url) s)))
            = Inr recognised"
      by simp_all
    have m: "\<not> meaningful None" by (simp add: meaningful_def)
    from extract_from_pdf_short(2) [OF g p m r] show ?thesis .
  qed
qed

theorem extract_from_pdf_never_raises_witness:
  "fst (extract_from_pdf offline_world ''u'' no_files) = Inr None
   \<and> fst (extract_from_pdf garbage_world ''u'' no_files) = Inr None
   \<and> fst (extract_from_pdf scanned_world ''u'' no_files) = Inr None
   \<and> fst (extract_from_pdf image_only_world ''u'' no_files)
       = Inr (Some [(''text'', clean_ocr_text (replicate 300 (CHR ''a'')))])"
proof -
  have st: "strip (replicate 300 (CHR ''a'')) = replicate 300 (CHR ''a'')"
    by (rule strip_id) (simp_all add: is_space_def code_def)
  have ne: "replicate 300 (CHR ''a'') \<noteq> []" by simp
  have d: "requests_get image_only_world ''u'' = Inr [37, 80, 68, 70]
        \<and> pdfplumber_open image_only_world [37, 80, 68, 70] = Inl PdfError
        \<and> fst (extract_with_ocr image_only_world [37, 80, 68, 70]
                 (called PdfOpen (called (Get ''u'') no_files)))
            = Inr (Some (replicate 300 (CHR ''a'')))"
    by (simp add: extract_with_ocr_def ocr_try_def ocr_finally_def called_def wv st ne)
  have m: "meaningful (Some (replicate 300 (CHR ''a'')))"
    by (simp add: meaningful_def st)
  have a: "requests_get offline_world ''u'' = Inl RequestError"
    and b: "requests_get garbage_world ''u'' = Inr [37, 80, 68, 70]
        \<and> pdfplumber_open garbage_world [37, 80, 68, 70] = Inl PdfError
        \<and> convert_from_path garbage_world [37, 80, 68, 70] = Inl RasterError"
    by (simp_all add: wv)
  have c: "requests_get scanned_world ''u'' = Inr [37, 80, 68, 70]
        \<and> extract_with_pdfplumber scanned_world [37, 80, 68, 70] (called (Get ''u'') no_files)
            = (Inr (Some ''7''), called PdfOpen (called (Get ''u'') no_files))
        \<and> \<not> meaningful (Some ''7'')
        \<and> fst (extract_with_ocr scanned_world [37, 80, 68, 70]
                 (called PdfOpen (called (Get ''u'') no_files))) = Inr (Some ''scan'')
        \<and> \<not> meaningful (Some ''scan'')"
    by (simp add: extract_with_pdfplumber_def extract_with_ocr_def ocr_try_def ocr_finally_def
        meaningful_def called_def wv strip_def is_space_def code_def)
  from extract_from_pdf_never_raises [of offline_world "''u''" no_files RequestError]
    extract_from_pdf_never_raises
      [of garbage_world "''u''" no_files _ "[37, 80, 68, 70]" PdfError RasterError]
    extract_from_pdf_never_raises
      [of scanned_world "''u''" no_files _ "[37, 80, 68, 70]" _ _ "Some ''7''"
          "called PdfOpen (called (Get ''u'') no_files)" "Some ''scan''"]
    extract_from_pdf_never_raises
      [of image_only_world "''u''" no_files _ "[37, 80, 68, 70]" PdfError _ _ _
          "Some (replicate 300 (CHR ''a''))"]
    a b c d m
  show ?thesis by simp
qed

text \<open>
  When \<open>os.unlink\<close> raises, \<open>_extract_with_ocr\<close> logs the failure and returns the
  recognised text while the temporary file stays on disk.
\<close>

lemma unlink_failure_keeps_file:
  "fst (extract_with_ocr unlink_fails_world [37, 80, 68, 70] no_files) = Inr (Some ''scan'')
   \<and> files (snd (extract_with_ocr unlink_fails_world [37, 80, 68, 70] no_files)) ''/tmp/tmp1.pdf''
       = Some [37, 80, 68, 70]"
  by (simp add: extract_with_ocr_def ocr_try_def ocr_finally_def called_def wv
      strip_def is_space_def code_def)

text \<open>
  Once the temporary file has been created and written, every run of
  \<open>_extract_with_ocr\<close> ends with one call of \<open>os.unlink\<close> on that file, made after
  the rasterization and after every page has been processed or skipped, whether the
  rasterization raises, pages fail or all succeeds. The file is gone when that call
  succeeds and stays when it raises.
\<close>

lemma temp_file_unlinked_after_write:
  assumes "named_temporary_file w = Inr p" and "tmp_write w p content = Inr u"
  shows "(\<exists>xs. calls (snd (extract_with_ocr w content s))
                 = calls s @ [NamedTemporaryFile, Write p, ConvertFromPath p] @ xs @ [Unlink p]
               \<and> (\<forall>c\<in>set xs. \<exists>i. c = ImageToString i))
       \<and> (os_unlink w p = Inr () \<longrightarrow> files (snd (extract_with_ocr w content s)) p = None)
       \<and> (os_unlink w p = Inl e \<longrightarrow>
            files (snd (extract_with_ocr w content s)) p = Some content)"
proof -
  let ?s2 = "(called (Write p) ((called NamedTemporaryFile s)\<lparr>files := (files s)(p \<mapsto> [])\<rparr>))
                \<lparr>files := (files s)(p \<mapsto> content)\<rparr>"
  have s': "snd (extract_with_ocr w content s) = ocr_finally w p (snd (ocr_try w p ?s2))"
    using assms by (simp add: snd_extract_with_ocr)
  obtain xs where xs: "calls (snd (ocr_try w p ?s2)) = calls ?s2 @ [ConvertFromPath p] @ xs"
    "\<forall>c\<in>set xs. \<exists>i. c = ImageToString i"
    using ocr_try_only_page_calls by blast
  have "calls (snd (extract_with_ocr w content s))
          = calls s @ [NamedTemporaryFile, Write p, ConvertFromPath p] @ xs @ [Unlink p]"
    unfolding s' using xs(1) by (simp add: ocr_finally_calls)
  with xs(2) have 1: "\<exists>xs. calls (snd (extract_with_ocr w content s))
                 = calls s @ [NamedTemporaryFile, Write p, ConvertFromPath p] @ xs @ [Unlink p]
               \<and> (\<forall>c\<in>set xs. \<exists>i. c = ImageToString i)"
    by blast
  have f: "files (snd (ocr_try w p ?s2)) p = Some content"
    by (simp add: ocr_try_files)
  have 2: "os_unlink w p = Inr () \<longrightarrow> files (snd (extract_with_ocr w content s)) p = None"
    unfolding s' by (simp add: ocr_finally_files)
  have 3: "os_unlink w p = Inl e \<longrightarrow>
            files (snd (extract_with_ocr w content s)) p = Some content"
    unfolding s' using f by (simp add: ocr_finally_files)
  from 1 2 3 show ?thesis by blast
qed

lemma temp_file_unlinked_after_write_scanned:
  "calls (snd (extract_with_ocr scanned_world [37, 80, 68, 70] no_files))
     = [NamedTemporaryFile, Write ''/tmp/tmp1.pdf'', ConvertFromPath ''/tmp/tmp1.pdf'',
        ImageToString (Image 1), Unlink ''/tmp/tmp1.pdf'']
   \<and> files (snd (extract_with_ocr scanned_world [37, 80, 68, 70] no_files)) ''/tmp/tmp1.pdf''
       = None"
proof -
  have a: "named_temporary_file scanned_world = Inr ''/tmp/tmp1.pdf''"
    and b: "tmp_write scanned_world ''/tmp/tmp1.pdf'' [37, 80, 68, 70] = Inr ()"
    and c: "os_unlink scanned_world ''/tmp/tmp1.pdf'' = Inr ()"
    by (simp_all add: wv)
  have "calls (snd (extract_with_ocr scanned_world [37, 80, 68, 70] no_files))
     = [NamedTemporaryFile, Write ''/tmp/tmp1.pdf'', ConvertFromPath ''/tmp/tmp1.pdf'',
        ImageToString (Image 1), Unlink ''/tmp/tmp1.pdf'']"
    by (simp add: snd_extract_with_ocr snd_ocr_try ocr_finally_def called_def wv
        strip_def is_space_def code_def)
  with temp_file_unlinked_after_write [OF a b, of no_files] c show ?thesis by simp
qed

text \<open>
  C9. The temporary file is to be removed on every exit path of
  \<open>_extract_with_ocr\<close>. The \<open>with\<close> block that creates and writes the file stands
  before the inner \<open>try\<close> whose \<open>finally\<close> unlinks it: when the write raises, the
  function returns \<open>None\<close> through the outer \<open>except\<close>, no call of \<open>os.unlink\<close> is
  made, and the file that \<open>NamedTemporaryFile(delete=False)\<close> created is still on
  disk.
\<close>

theorem write_failure_leaves_temp_file:
  "tmp_write disk_full_world ''/tmp/tmp1.pdf'' [37, 80, 68, 70] = Inl WriteError
   \<and> fst (extract_with_ocr disk_full_world [37, 80, 68, 70] no_files) = Inr None
   \<and> calls (snd (extract_with_ocr disk_full_world [37, 80, 68, 70] no_files))
       = [NamedTemporaryFile, Write ''/tmp/tmp1.pdf'']
   \<and> files (snd (extract_with_ocr disk_full_world [37, 80, 68, 70] no_files)) ''/tmp/tmp1.pdf''
       = Some []"
  by (simp add: extract_with_ocr_def called_def wv)

end
